theory Spec2Isabelle
  imports Complex_Main "HOL-Library.Sublist" "HOL-Library.AList"
begin

section \<open>API Sentinel X: the scan orchestration of \<open>API-Sentinel-X.py\<close>\<close>

text \<open>
  A shallow embedding of the class \<open>APISentinel\<close> and of the script's entry point.
  Every method becomes a function on an explicit scanner state; every \<open>raise\<close> becomes a
  value \<open>Inl e\<close>; every \<open>for\<close> loop becomes a recursion over the list it walks.
\<close>

subsection \<open>Python values and exceptions\<close>

text \<open>
  The values that reach the findings and the report: what a vulnerability test returns
  (opaque details) and the dictionary literal built by \<open>process_finding\<close>.
  \<open>truthy\<close> is Python's truth test, used by \<open>if result:\<close>.
\<close>

datatype pyval =
    PNone
  | PBool bool
  | PInt int
  | PStr string
  | PList "pyval list"
  | PDict "(string \<times> pyval) list"

fun truthy :: "pyval \<Rightarrow> bool" where
  "truthy PNone = False"
| "truthy (PBool b) = b"
| "truthy (PInt i) = (i \<noteq> 0)"
| "truthy (PStr s) = (s \<noteq> [])"
| "truthy (PList xs) = (xs \<noteq> [])"
| "truthy (PDict kvs) = (kvs \<noteq> [])"

text \<open>
  The exceptions the code can meet. In Python \<open>KeyboardInterrupt\<close> and \<open>SystemExit\<close>
  derive from \<open>BaseException\<close> but not from \<open>Exception\<close>: a clause
  \<open>except Exception\<close> lets them through, a bare \<open>except:\<close> catches them.
\<close>

datatype exn =
    KeyboardInterrupt
  | SystemExit
  | ZeroDivisionError
  | KeyError
  | ValueError
  | TypeError
  | ConnectionError
  | Timeout

fun is_Exception :: "exn \<Rightarrow> bool" where
  "is_Exception KeyboardInterrupt = False"
| "is_Exception SystemExit = False"
| "is_Exception _ = True"

text \<open>\<open>needle in haystack\<close> on Python strings: the needle occurs as a contiguous run.\<close>

fun isin :: "string \<Rightarrow> string \<Rightarrow> bool" where
  "isin needle [] = (needle = [])"
| "isin needle (c # cs) = (prefix needle (c # cs) \<or> isin needle cs)"

text \<open>
  A Python \<open>set\<close> of strings, kept as a list without repetitions. \<open>set_add\<close> is
  \<open>set.add\<close>, \<open>set_update\<close> is \<open>set.update\<close> with a list argument. The order in which
  Python walks a set is implementation-defined; the list fixes insertion order, and no
  result below depends on that choice unless it says so.
\<close>

definition set_add :: "string \<Rightarrow> string list \<Rightarrow> string list" where
  "set_add x xs = (if x \<in> set xs then xs else xs @ [x])"

fun set_update :: "string list \<Rightarrow> string list \<Rightarrow> string list" where
  "set_update xs [] = xs"
| "set_update xs (y # ys) = set_update (set_add y xs) ys"

text \<open>The colour codes of \<open>colorama.Fore\<close> that end up inside the findings.\<close>

definition Fore_RED :: string where
  "Fore_RED = CHR 0x1B # ''[31m''"

definition Fore_YELLOW :: string where
  "Fore_YELLOW = CHR 0x1B # ''[33m''"

definition Fore_BLUE :: string where
  "Fore_BLUE = CHR 0x1B # ''[34m''"

subsection \<open>The scanner object and what it writes\<close>

text \<open>
  What the program prints, one event per \<open>sys.stdout.write\<close> or \<open>print\<close>:
  the progress line (percentage, then the three counts it shows), the line after the report
  was written, and the line of the interrupt handler. The percentage is the exact quotient
  as a real number where Python computes a double and prints two decimals.
\<close>

datatype event =
    Progress real nat nat nat
  | ReportGenerated
  | ScanInterrupted

text \<open>
  The fields of \<open>APISentinel\<close> set by \<open>__init__\<close>, with \<open>findings\<close> a dictionary from
  the severity key to the list of findings (an association list, in insertion order), and
  the two outputs: the lines printed and the content of \<open>api_sentinel_report.json\<close>
  (\<open>None\<close> until it is written; opening with mode \<open>'w'\<close> replaces it).
\<close>

record sentinel =
  targets :: "string list"
  output_dir :: string
  threads :: int
  total_tests :: int
  completed_tests :: int
  findings :: "(string \<times> pyval list) list"
  stdout :: "event list"
  report_file :: "(string \<times> pyval list) list option"

text \<open>
  \<open>__init__\<close>, given the targets that \<open>load_targets\<close> read from the file. The HTTP session
  and the creation of the output directory are left out.
\<close>

definition init :: "string list \<Rightarrow> string \<Rightarrow> int \<Rightarrow> sentinel" where
  "init targets_read out_dir n_threads =
     \<lparr> targets = targets_read,
       output_dir = out_dir,
       threads = n_threads,
       total_tests = 0,
       completed_tests = 0,
       findings = [(''critical'', []), (''high'', []), (''medium'', []),
                   (''low'', []), (''info'', [])],
       stdout = [],
       report_file = None \<rparr>"

subsection \<open>The probes\<close>

text \<open>
  \<open>discover_endpoints\<close> and \<open>scan_owasp_api\<close> call eight methods of \<open>self\<close>. The engine
  is modelled for any implementation of them: a discovery strategy takes the target and
  returns \<open>None\<close> or a list of strings, or raises; a vulnerability test takes the endpoint
  and returns any value, or raises. A probe reads the network only: it does not touch the
  scanner's fields.
\<close>

record probes =
  check_common_paths :: "string \<Rightarrow> exn + string list option"
  check_js_files :: "string \<Rightarrow> exn + string list option"
  check_swagger :: "string \<Rightarrow> exn + string list option"
  check_graphql :: "string \<Rightarrow> exn + string list option"
  test_bola :: "string \<Rightarrow> exn + pyval"
  test_bfla :: "string \<Rightarrow> exn + pyval"
  test_mass_assignment :: "string \<Rightarrow> exn + pyval"
  test_sqli :: "string \<Rightarrow> exn + pyval"

text \<open>
  The bodies the file itself gives them. \<open>check_common_paths\<close> joins five fixed paths to
  the target and keeps the URLs that answer with a status below 400; \<open>urljoin\<close> stands
  outside the \<open>try\<close>, the request inside a bare \<open>except:\<close>. The network is a parameter:
  what \<open>urljoin\<close> returns and what status (or exception) a GET of a URL gives.
  The other seven bodies are \<open>pass\<close>: they return \<open>None\<close>.
\<close>

record net =
  urljoin :: "string \<Rightarrow> string \<Rightarrow> exn + string"
  http_get :: "string \<Rightarrow> exn + int"

fun common_paths_loop :: "net \<Rightarrow> string \<Rightarrow> string list \<Rightarrow> string list \<Rightarrow> exn + string list" where
  "common_paths_loop nw target [] found = Inr found"
| "common_paths_loop nw target (path # paths) found =
     (case urljoin nw target path of
        Inl e \<Rightarrow> Inl e
      | Inr url \<Rightarrow>
          (case http_get nw url of
             Inl e \<Rightarrow> common_paths_loop nw target paths found
           | Inr status_code \<Rightarrow>
               common_paths_loop nw target paths
                 (if status_code < 400 then found @ [url] else found)))"

definition check_common_paths_body :: "net \<Rightarrow> string \<Rightarrow> exn + string list option" where
  "check_common_paths_body nw target =
     (case common_paths_loop nw target [''/api'', ''/v1'', ''/graphql'', ''/rest'', ''/admin''] [] of
        Inl e \<Rightarrow> Inl e
      | Inr found \<Rightarrow> Inr (Some found))"

definition source_probes :: "net \<Rightarrow> probes" where
  "source_probes nw =
     \<lparr> check_common_paths = check_common_paths_body nw,
       check_js_files = (\<lambda>target. Inr None),
       check_swagger = (\<lambda>target. Inr None),
       check_graphql = (\<lambda>target. Inr None),
       test_bola = (\<lambda>endpoint. Inr PNone),
       test_bfla = (\<lambda>endpoint. Inr PNone),
       test_mass_assignment = (\<lambda>endpoint. Inr PNone),
       test_sqli = (\<lambda>endpoint. Inr PNone) \<rparr>"

subsection \<open>Endpoint discovery\<close>

text \<open>
  The loop of \<open>discover_endpoints\<close>: each method runs inside \<open>try\<close>; \<open>except Exception\<close>
  skips to the next method, any other exception leaves the function; a truthy result
  (a non-empty list) is merged into the set.
\<close>

definition methods :: "probes \<Rightarrow> (string \<Rightarrow> exn + string list option) list" where
  "methods p = [check_common_paths p, check_js_files p, check_swagger p, check_graphql p]"

fun discover_loop ::
  "(string \<Rightarrow> exn + string list option) list \<Rightarrow> string \<Rightarrow> string list \<Rightarrow> exn + string list" where
  "discover_loop [] target endpoints = Inr endpoints"
| "discover_loop (method # rest) target endpoints =
     (case method target of
        Inl e \<Rightarrow> (if is_Exception e then discover_loop rest target endpoints else Inl e)
      | Inr None \<Rightarrow> discover_loop rest target endpoints
      | Inr (Some found) \<Rightarrow>
          discover_loop rest target
            (if found \<noteq> [] then set_update endpoints found else endpoints))"

definition discover_endpoints :: "probes \<Rightarrow> string \<Rightarrow> exn + string list" where
  "discover_endpoints p target = discover_loop (methods p) target []"

subsection \<open>Vulnerability scan of one endpoint\<close>

text \<open>
  The loop of \<open>scan_owasp_api\<close>: each test runs inside \<open>try\<close> with a bare \<open>except:\<close>,
  so whatever it raises is dropped; a truthy result is appended with the test's name.
\<close>

definition tests :: "probes \<Rightarrow> (string \<times> (string \<Rightarrow> exn + pyval)) list" where
  "tests p = [(''BOLA'', test_bola p), (''BFLA'', test_bfla p),
              (''Mass Assignment'', test_mass_assignment p), (''SQLi'', test_sqli p)]"

fun scan_loop ::
  "(string \<times> (string \<Rightarrow> exn + pyval)) list \<Rightarrow> string \<Rightarrow> (string \<times> pyval) list
     \<Rightarrow> (string \<times> pyval) list" where
  "scan_loop [] endpoint results = results"
| "scan_loop ((name, test_func) # rest) endpoint results =
     (case test_func endpoint of
        Inl e \<Rightarrow> scan_loop rest endpoint results
      | Inr result \<Rightarrow>
          scan_loop rest endpoint
            (if truthy result then results @ [(name, result)] else results))"

definition scan_owasp_api :: "probes \<Rightarrow> string \<Rightarrow> (string \<times> pyval) list" where
  "scan_owasp_api p endpoint = scan_loop (tests p) endpoint []"

subsection \<open>Recording a finding\<close>

text \<open>
  \<open>self.findings[key].append(item)\<close>: a missing key raises \<open>KeyError\<close>, otherwise the
  list under the key grows at its end.
\<close>

definition bucket_append :: "string \<Rightarrow> pyval \<Rightarrow> sentinel \<Rightarrow> exn + sentinel" where
  "bucket_append key item s =
     (case map_of (findings s) key of
        None \<Rightarrow> Inl KeyError
      | Some bucket \<Rightarrow> Inr (s\<lparr>findings := AList.update key (bucket @ [item]) (findings s)\<rparr>))"

definition process_finding :: "sentinel \<Rightarrow> string \<Rightarrow> string \<Rightarrow> pyval \<Rightarrow> exn + sentinel" where
  "process_finding s endpoint vuln_name details =
     (if isin ''SQLi'' vuln_name then
        bucket_append ''critical''
          (PDict [(''endpoint'', PStr endpoint), (''vulnerability'', PStr vuln_name),
                  (''details'', details), (''color'', PStr Fore_RED)]) s
      else if isin ''BOLA'' vuln_name then
        bucket_append ''high''
          (PDict [(''endpoint'', PStr endpoint), (''vulnerability'', PStr vuln_name),
                  (''details'', details), (''color'', PStr Fore_YELLOW)]) s
      else
        bucket_append ''medium''
          (PDict [(''endpoint'', PStr endpoint), (''vulnerability'', PStr vuln_name),
                  (''details'', details), (''color'', PStr Fore_BLUE)]) s)"

subsection \<open>Progress line and report\<close>

text \<open>
  \<open>print_progress\<close> divides first (\<open>ZeroDivisionError\<close> when \<open>total_tests\<close> is 0), then
  reads the three buckets it counts. \<open>generate_report\<close> dumps \<open>self.findings\<close> into the
  report file and prints one line; failures of the file system are not modelled.
\<close>

definition print_progress :: "sentinel \<Rightarrow> exn + sentinel" where
  "print_progress s =
     (if total_tests s = 0 then Inl ZeroDivisionError
      else
        (case map_of (findings s) ''critical'' of
           None \<Rightarrow> Inl KeyError
         | Some crit \<Rightarrow>
             (case map_of (findings s) ''high'' of
                None \<Rightarrow> Inl KeyError
              | Some high \<Rightarrow>
                  (case map_of (findings s) ''medium'' of
                     None \<Rightarrow> Inl KeyError
                   | Some med \<Rightarrow>
                       Inr (s\<lparr>stdout := stdout s @
                              [Progress (real_of_int (completed_tests s) / real_of_int (total_tests s) * 100)
                                 (length crit) (length high) (length med)]\<rparr>)))))"

definition generate_report :: "sentinel \<Rightarrow> sentinel" where
  "generate_report s =
     s\<lparr>report_file := Some (findings s), stdout := stdout s @ [ReportGenerated]\<rparr>"

subsection \<open>The run\<close>

text \<open>
  The three nested loops of \<open>run\<close>. The object is mutated in place, so a loop that is left
  by an exception hands back the exception together with the state reached so far.
  \<open>run_try\<close> is the body of the \<open>try\<close>; the bare \<open>except: continue\<close> around it drops the
  exception and keeps the state.
\<close>

fun results_loop :: "sentinel \<Rightarrow> string \<Rightarrow> (string \<times> pyval) list \<Rightarrow> exn option \<times> sentinel" where
  "results_loop s endpoint [] = (None, s)"
| "results_loop s endpoint ((vuln_name, details) # rest) =
     (case process_finding s endpoint vuln_name details of
        Inl e \<Rightarrow> (Some e, s)
      | Inr s' \<Rightarrow> results_loop s' endpoint rest)"

fun endpoints_loop :: "probes \<Rightarrow> sentinel \<Rightarrow> string list \<Rightarrow> exn option \<times> sentinel" where
  "endpoints_loop p s [] = (None, s)"
| "endpoints_loop p s (endpoint # rest) =
     (case results_loop s endpoint (scan_owasp_api p endpoint) of
        (Some e, s') \<Rightarrow> (Some e, s')
      | (None, s') \<Rightarrow> endpoints_loop p s' rest)"

definition run_try :: "probes \<Rightarrow> sentinel \<Rightarrow> string \<Rightarrow> exn option \<times> sentinel" where
  "run_try p s target =
     (case discover_endpoints p target of
        Inl e \<Rightarrow> (Some e, s)
      | Inr endpoints \<Rightarrow>
          (case endpoints_loop p s endpoints of
             (Some e, s') \<Rightarrow> (Some e, s')
           | (None, s') \<Rightarrow>
               (case print_progress (s'\<lparr>completed_tests := completed_tests s' + 1\<rparr>) of
                  Inl e \<Rightarrow> (Some e, s'\<lparr>completed_tests := completed_tests s' + 1\<rparr>)
                | Inr s'' \<Rightarrow> (None, s''))))"

fun targets_loop :: "probes \<Rightarrow> sentinel \<Rightarrow> string list \<Rightarrow> sentinel" where
  "targets_loop p s [] = s"
| "targets_loop p s (target # rest) = targets_loop p (snd (run_try p s target)) rest"

text \<open>
  \<open>run\<close>: the total is set, the executor is created (\<open>ThreadPoolExecutor\<close> raises
  \<open>ValueError\<close> for a width that is not positive) and never given any work, the targets
  are walked by the calling thread, and the report is written.
\<close>

definition run :: "probes \<Rightarrow> sentinel \<Rightarrow> exn option \<times> sentinel" where
  "run p s =
     (let s1 = s\<lparr>total_tests := int (length (targets s)) * 5\<rparr> in
      if threads s1 \<le> 0 then (Some ValueError, s1)
      else (None, generate_report (targets_loop p s1 (targets s1))))"

text \<open>
  The entry point: build the scanner, run it, and on \<open>KeyboardInterrupt\<close> print a line and
  write the report. The result is the exit status with the final state; an exception
  nobody catches ends the process with status 1.
\<close>

definition main :: "probes \<Rightarrow> string list \<Rightarrow> string \<Rightarrow> int \<Rightarrow> int \<times> sentinel" where
  "main p targets_read out_dir n_threads =
     (case run p (init targets_read out_dir n_threads) of
        (None, s) \<Rightarrow> (0, s)
      | (Some KeyboardInterrupt, s) \<Rightarrow>
          (0, generate_report (s\<lparr>stdout := stdout s @ [ScanInterrupted]\<rparr>))
      | (Some e, s) \<Rightarrow> (1, s))"

subsection \<open>Notions used in the statements\<close>

text \<open>
  The five keys that \<open>__init__\<close> puts into \<open>findings\<close>, the property that a scanner
  still has exactly these keys in this order, and the number of findings stored in all
  buckets together.
\<close>

definition bucket_keys :: "string list" where
  "bucket_keys = [''critical'', ''high'', ''medium'', ''low'', ''info'']"

definition keys_ok :: "sentinel \<Rightarrow> bool" where
  "keys_ok s = (map fst (findings s) = bucket_keys)"

definition n_findings :: "sentinel \<Rightarrow> nat" where
  "n_findings s = sum_list (map (\<lambda>kb. length (snd kb)) (findings s))"

text \<open>
  Sample probes for the instances below: one with a failing strategy, overlapping
  discoveries and two reporting tests; one whose first strategy is interrupted on every
  target; one whose first strategy is interrupted on the target \<open>http://a\<close> only.
\<close>

definition flaky_probes :: probes where
  "flaky_probes =
     \<lparr> check_common_paths = (\<lambda>target. Inl ConnectionError),
       check_js_files = (\<lambda>target. Inr (Some [target @ ''/api'', target @ ''/v1''])),
       check_swagger = (\<lambda>target. Inr (Some [target @ ''/v1'', target @ ''/openapi.json''])),
       check_graphql = (\<lambda>target. Inr (Some [])),
       test_bola = (\<lambda>endpoint. Inl Timeout),
       test_bfla = (\<lambda>endpoint. Inr PNone),
       test_mass_assignment = (\<lambda>endpoint. Inr (PStr ''role accepted'')),
       test_sqli = (\<lambda>endpoint. Inr (PBool True)) \<rparr>"

definition ctrl_c_probes :: probes where
  "ctrl_c_probes =
     \<lparr> check_common_paths = (\<lambda>target. Inl KeyboardInterrupt),
       check_js_files = (\<lambda>target. Inr None),
       check_swagger = (\<lambda>target. Inr (Some [target @ ''/openapi.json''])),
       check_graphql = (\<lambda>target. Inr None),
       test_bola = (\<lambda>endpoint. Inr PNone),
       test_bfla = (\<lambda>endpoint. Inr PNone),
       test_mass_assignment = (\<lambda>endpoint. Inr PNone),
       test_sqli = (\<lambda>endpoint. Inr (PBool True)) \<rparr>"

definition ctrl_c_at_a_probes :: probes where
  "ctrl_c_at_a_probes =
     \<lparr> check_common_paths =
         (\<lambda>target. if target = ''http://a'' then Inl KeyboardInterrupt
                    else Inr (Some [target @ ''/api''])),
       check_js_files = (\<lambda>target. Inr None),
       check_swagger = (\<lambda>target. Inr None),
       check_graphql = (\<lambda>target. Inr None),
       test_bola = (\<lambda>endpoint. Inr PNone),
       test_bfla = (\<lambda>endpoint. Inr PNone),
       test_mass_assignment = (\<lambda>endpoint. Inr PNone),
       test_sqli = (\<lambda>endpoint. Inr (PBool True)) \<rparr>"

text \<open>
  \<open>frame s s'\<close>: \<open>s'\<close> differs from \<open>s\<close> in \<open>findings\<close> at most. \<open>percents\<close> reads the
  percentages off the printed lines. \<open>processed p ts\<close> are the targets among \<open>ts\<close> whose
  discovery returns.
\<close>

definition frame :: "sentinel \<Rightarrow> sentinel \<Rightarrow> bool" where
  "frame s s' =
     (targets s' = targets s \<and> output_dir s' = output_dir s \<and> threads s' = threads s
      \<and> total_tests s' = total_tests s \<and> completed_tests s' = completed_tests s
      \<and> stdout s' = stdout s \<and> report_file s' = report_file s)"

fun percents :: "event list \<Rightarrow> real list" where
  "percents [] = []"
| "percents (Progress percent crit high med # evs) = percent # percents evs"
| "percents (ReportGenerated # evs) = percents evs"
| "percents (ScanInterrupted # evs) = percents evs"

definition processed :: "probes \<Rightarrow> string list \<Rightarrow> string list" where
  "processed p ts = filter (\<lambda>target. \<not> isl (discover_endpoints p target)) ts"

text \<open>
  A network for the bodies of the file itself: every request for the target \<open>http://a\<close>
  is interrupted, every other request answers 200.
\<close>

definition ctrl_c_net :: net where
  "ctrl_c_net =
     \<lparr> urljoin = (\<lambda>target path. Inr (target @ path)),
       http_get = (\<lambda>url. if prefix ''http://a'' url then Inl KeyboardInterrupt else Inr 200) \<rparr>"

text \<open>
  The keys of the dictionary that \<open>process_finding\<close> stores, the keys of a stored value,
  and what holds of \<open>findings\<close> all along a run: the five buckets, \<open>low\<close> and \<open>info\<close>
  empty, every stored record with those four keys.
\<close>

definition finding_keys :: "string list" where
  "finding_keys = [''endpoint'', ''vulnerability'', ''details'', ''color'']"

definition record_keys :: "pyval \<Rightarrow> string list" where
  "record_keys item = (case item of PDict kvs \<Rightarrow> map fst kvs | _ \<Rightarrow> [])"

definition shape_ok :: "(string \<times> pyval list) list \<Rightarrow> bool" where
  "shape_ok fs = list_all (\<lambda>kb. list_all (\<lambda>item. record_keys item = finding_keys) (snd kb)) fs"

definition report_inv :: "(string \<times> pyval list) list \<Rightarrow> bool" where
  "report_inv fs =
     (map fst fs = bucket_keys \<and> map_of fs ''low'' = Some [] \<and> map_of fs ''info'' = Some []
      \<and> shape_ok fs)"

text \<open>
  More samples: probes whose first and last strategies and first two tests report; a
  scanner whose \<open>critical\<close> bucket is missing. \<open>grown s s'\<close>: every bucket of \<open>s\<close> is
  still there in \<open>s'\<close>, with its findings first and in the same order.
\<close>

definition reporting_probes :: probes where
  "reporting_probes =
     \<lparr> check_common_paths = (\<lambda>target. Inr (Some [target @ ''/api''])),
       check_js_files = (\<lambda>target. Inl Timeout),
       check_swagger = (\<lambda>target. Inr None),
       check_graphql = (\<lambda>target. Inr (Some [target @ ''/graphql'', target @ ''/api''])),
       test_bola = (\<lambda>endpoint. Inr (PStr ''object 7 readable'')),
       test_bfla = (\<lambda>endpoint. Inr (PBool True)),
       test_mass_assignment = (\<lambda>endpoint. Inl ConnectionError),
       test_sqli = (\<lambda>endpoint. Inr (PList [])) \<rparr>"



section \<open>Properties\<close>

subsection \<open>Strings, dictionaries and the findings\<close>

lemma isin_sublist: "isin needle hay = sublist needle hay"
  by (induction hay) (auto simp: sublist_Cons_right)

lemma update_present_keys:
  "map_of al k = Some old \<Longrightarrow> map fst (AList.update k v al) = map fst al"
  by (induction al) (auto split: if_splits)

lemma update_present_count:
  "map_of al k = Some old \<Longrightarrow>
   sum_list (map (\<lambda>kb. length (snd kb)) (AList.update k (old @ [x]) al)) =
   sum_list (map (\<lambda>kb. length (snd kb)) al) + 1"
  by (induction al) (auto split: if_splits)

lemma keys_ok_lookup:
  "keys_ok s \<Longrightarrow> k \<in> set bucket_keys \<Longrightarrow> \<exists>old. map_of (findings s) k = Some old"
  unfolding keys_ok_def
  by (metis list.set_map map_of_eq_None_iff not_Some_eq)

lemma bucket_append_ok:
  assumes "map_of (findings s) key = Some old"
  shows "bucket_append key item s = Inr (s\<lparr>findings := AList.update key (old @ [item]) (findings s)\<rparr>)"
  using assms by (simp add: bucket_append_def)

lemma bucket_append_effect:
  assumes "keys_ok s" and "key \<in> set bucket_keys"
  shows "\<exists>s' old. bucket_append key item s = Inr s'
      \<and> map_of (findings s) key = Some old
      \<and> map_of (findings s') key = Some (old @ [item])
      \<and> (\<forall>k. k \<noteq> key \<longrightarrow> map_of (findings s') k = map_of (findings s) k)
      \<and> n_findings s' = n_findings s + 1
      \<and> keys_ok s'
      \<and> s'\<lparr>findings := findings s\<rparr> = s"
proof -
  from keys_ok_lookup [OF assms] obtain old where old: "map_of (findings s) key = Some old" ..
  let ?s' = "s\<lparr>findings := AList.update key (old @ [item]) (findings s)\<rparr>"
  have "bucket_append key item s = Inr ?s'" by (rule bucket_append_ok [OF old])
  moreover have "map_of (findings ?s') key = Some (old @ [item])"
    by (simp add: update_conv')
  moreover have "\<forall>k. k \<noteq> key \<longrightarrow> map_of (findings ?s') k = map_of (findings s) k"
    by (simp add: update_conv')
  moreover have "n_findings ?s' = n_findings s + 1"
    by (simp add: n_findings_def update_present_count [OF old])
  moreover have "keys_ok ?s'"
    using assms(1) by (simp add: keys_ok_def update_present_keys [OF old])
  moreover have "?s'\<lparr>findings := findings s\<rparr> = s" by simp
  ultimately show ?thesis using old by blast
qed

subsection \<open>Severity classification\<close>

text \<open>
  Claim C1. On a scanner whose \<open>findings\<close> has the five keys, \<open>process_finding\<close>
  always succeeds and is a function of its arguments; the bucket is chosen by the first
  match on the test name: \<open>SQLi\<close> in the name gives \<open>critical\<close>, otherwise \<open>BOLA\<close> in the
  name gives \<open>high\<close>, otherwise \<open>medium\<close> (so \<open>BFLA\<close> and \<open>Mass Assignment\<close> go to
  \<open>medium\<close>). The finding is appended to that bucket, every other bucket is unchanged,
  the number of stored findings grows by exactly one, and no other field changes.
\<close>

theorem process_finding_classification:
  assumes "keys_ok s"
  shows "\<exists>s' key color old.
      process_finding s endpoint vuln_name details = Inr s'
    \<and> (key, color) =
        (if isin ''SQLi'' vuln_name then (''critical'', Fore_RED)
         else if isin ''BOLA'' vuln_name then (''high'', Fore_YELLOW)
         else (''medium'', Fore_BLUE))
    \<and> (vuln_name = ''BFLA'' \<or> vuln_name = ''Mass Assignment'' \<longrightarrow> key = ''medium'')
    \<and> map_of (findings s) key = Some old
    \<and> map_of (findings s') key =
        Some (old @ [PDict [(''endpoint'', PStr endpoint), (''vulnerability'', PStr vuln_name),
                            (''details'', details), (''color'', PStr color)]])
    \<and> (\<forall>k. k \<noteq> key \<longrightarrow> map_of (findings s') k = map_of (findings s) k)
    \<and> n_findings s' = n_findings s + 1
    \<and> keys_ok s'
    \<and> s'\<lparr>findings := findings s\<rparr> = s"
proof -
  consider (crit) "isin ''SQLi'' vuln_name"
    | (high) "\<not> isin ''SQLi'' vuln_name" "isin ''BOLA'' vuln_name"
    | (med) "\<not> isin ''SQLi'' vuln_name" "\<not> isin ''BOLA'' vuln_name"
    by blast
  then show ?thesis
  proof cases
    case crit
    then have ne: "vuln_name \<noteq> ''BFLA''" "vuln_name \<noteq> ''Mass Assignment''" by auto
    from bucket_append_effect [OF assms, of "''critical''"] crit ne
    show ?thesis
      by (simp add: process_finding_def bucket_keys_def)
  next
    case high
    then have ne: "vuln_name \<noteq> ''BFLA''" "vuln_name \<noteq> ''Mass Assignment''" by auto
    from bucket_append_effect [OF assms, of "''high''"] high ne
    show ?thesis
      by (simp add: process_finding_def bucket_keys_def)
  next
    case med
    from bucket_append_effect [OF assms, of "''medium''"] med
    show ?thesis
      by (simp add: process_finding_def bucket_keys_def)
  qed
qed

theorem process_finding_classification_witness:
  "keys_ok (init [] ''out'' 5) \<and>
   (\<exists>s'. process_finding (init [] ''out'' 5) ''http://t/api'' ''BFLA'' (PBool True) = Inr s'
      \<and> map_of (findings s') ''medium'' =
          Some [PDict [(''endpoint'', PStr ''http://t/api''), (''vulnerability'', PStr ''BFLA''),
                       (''details'', PBool True), (''color'', PStr Fore_BLUE)]]
      \<and> map_of (findings s') ''critical'' = Some []
      \<and> map_of (findings s') ''high'' = Some []
      \<and> n_findings s' = 1)"
proof -
  let ?s = "init [] ''out'' 5"
  have h: "keys_ok ?s"
    by (simp add: keys_ok_def init_def bucket_keys_def)
  from process_finding_classification [OF h, of "''http://t/api''" "''BFLA''" "PBool True"]
  obtain s' key color old where
    r: "process_finding ?s ''http://t/api'' ''BFLA'' (PBool True) = Inr s'"
    and kc: "(key, color) =
        (if isin ''SQLi'' ''BFLA'' then (''critical'', Fore_RED)
         else if isin ''BOLA'' ''BFLA'' then (''high'', Fore_YELLOW)
         else (''medium'', Fore_BLUE))"
    and old: "map_of (findings ?s) key = Some old"
    and new: "map_of (findings s') key =
        Some (old @ [PDict [(''endpoint'', PStr ''http://t/api''), (''vulnerability'', PStr ''BFLA''),
                            (''details'', PBool True), (''color'', PStr color)]])"
    and others: "\<forall>k. k \<noteq> key \<longrightarrow> map_of (findings s') k = map_of (findings ?s) k"
    and count: "n_findings s' = n_findings ?s + 1"
    by blast
  from kc have key: "key = ''medium''" and color: "color = Fore_BLUE" by simp_all
  from old key have "old = []" by (simp add: init_def)
  with new key color have m: "map_of (findings s') ''medium'' =
      Some [PDict [(''endpoint'', PStr ''http://t/api''), (''vulnerability'', PStr ''BFLA''),
                   (''details'', PBool True), (''color'', PStr Fore_BLUE)]]"
    by simp
  from others key have c: "map_of (findings s') ''critical'' = Some []"
    and hi: "map_of (findings s') ''high'' = Some []"
    by (simp_all add: init_def)
  from count have n: "n_findings s' = 1" by (simp add: n_findings_def init_def)
  from h r m c hi n show ?thesis by blast
qed

subsection \<open>Endpoint discovery\<close>

lemma set_add_set: "set (set_add x xs) = insert x (set xs)"
  by (auto simp: set_add_def)

lemma set_add_distinct: "distinct xs \<Longrightarrow> distinct (set_add x xs)"
  by (simp add: set_add_def)

lemma set_update_set: "set (set_update xs ys) = set xs \<union> set ys"
  by (induction ys arbitrary: xs) (auto simp: set_add_set)

lemma set_update_distinct: "distinct xs \<Longrightarrow> distinct (set_update xs ys)"
  by (induction ys arbitrary: xs) (auto simp: set_add_distinct)

lemma set_update_absorb: "set ys \<subseteq> set xs \<Longrightarrow> set_update xs ys = xs"
  by (induction ys arbitrary: xs) (auto simp: set_add_def)

lemma discover_loop_distinct:
  "discover_loop ms target acc = Inr es \<Longrightarrow> distinct acc \<Longrightarrow> distinct es"
proof (induction ms arbitrary: acc)
  case Nil
  then show ?case by simp
next
  case (Cons m ms)
  then show ?case
    by (auto split: sum.splits option.splits if_splits simp: set_update_distinct)
qed

lemma discover_loop_set:
  "discover_loop ms target acc = Inr es \<Longrightarrow>
   set es = set acc \<union> (\<Union>m \<in> set ms. case m target of Inr (Some found) \<Rightarrow> set found | _ \<Rightarrow> {})"
proof (induction ms arbitrary: acc)
  case Nil
  then show ?case by simp
next
  case (Cons m ms)
  show ?case
  proof (cases "m target")
    case (Inl e)
    with Cons.prems have "discover_loop ms target acc = Inr es"
      by (simp split: if_splits)
    from Cons.IH [OF this] Inl show ?thesis by simp
  next
    case (Inr r)
    show ?thesis
    proof (cases r)
      case None
      with Inr Cons.prems have "discover_loop ms target acc = Inr es" by simp
      from Cons.IH [OF this] Inr None show ?thesis by simp
    next
      case (Some found)
      with Inr Cons.prems have
        "discover_loop ms target (if found \<noteq> [] then set_update acc found else acc) = Inr es"
        by simp
      from Cons.IH [OF this] Inr Some show ?thesis
        by (auto simp: set_update_set)
    qed
  qed
qed

lemma discover_loop_returns:
  "\<forall>m \<in> set ms. \<forall>e. m target = Inl e \<longrightarrow> is_Exception e \<Longrightarrow>
   \<exists>es. discover_loop ms target acc = Inr es"
proof (induction ms arbitrary: acc)
  case Nil
  then show ?case by simp
next
  case (Cons m ms)
  then show ?case
    by (cases "m target") (auto split: option.splits)
qed

lemma discover_loop_raises:
  "discover_loop ms target acc = Inl e \<Longrightarrow> \<not> is_Exception e \<and> (\<exists>m \<in> set ms. m target = Inl e)"
proof (induction ms arbitrary: acc)
  case Nil
  then show ?case by simp
next
  case (Cons m ms)
  then show ?case
    by (cases "m target") (auto split: option.splits if_splits)
qed

lemma discover_loop_append:
  "discover_loop (ms1 @ ms2) target acc =
     (case discover_loop ms1 target acc of Inl e \<Rightarrow> Inl e | Inr acc' \<Rightarrow> discover_loop ms2 target acc')"
proof (induction ms1 arbitrary: acc)
  case Nil
  then show ?case by simp
next
  case (Cons m ms1)
  then show ?case
    by (cases "m target") (auto split: option.splits)
qed

lemma discover_loop_absorb:
  "discover_loop ms target acc0 = Inr es \<Longrightarrow> set es \<subseteq> set acc \<Longrightarrow>
   discover_loop ms target acc = Inr acc"
proof (induction ms arbitrary: acc0)
  case Nil
  then show ?case by simp
next
  case (Cons m ms)
  show ?case
  proof (cases "m target")
    case (Inl e)
    with Cons.prems(1) have ex: "is_Exception e" and "discover_loop ms target acc0 = Inr es"
      by (auto split: if_splits)
    from Cons.IH [OF this(2) Cons.prems(2)] Inl ex show ?thesis by simp
  next
    case (Inr r)
    show ?thesis
    proof (cases r)
      case None
      with Inr Cons.prems(1) have "discover_loop ms target acc0 = Inr es" by simp
      from Cons.IH [OF this Cons.prems(2)] Inr None show ?thesis by simp
    next
      case (Some found)
      with Inr Cons.prems(1) have
        l: "discover_loop ms target (if found \<noteq> [] then set_update acc0 found else acc0) = Inr es"
        by simp
      from discover_loop_set [OF Cons.prems(1)] Inr Some have "set found \<subseteq> set es" by auto
      with Cons.prems(2) have "set_update acc found = acc" by (auto intro: set_update_absorb)
      with Cons.IH [OF l Cons.prems(2)] Inr Some show ?thesis by simp
    qed
  qed
qed

text \<open>
  An exception that does not derive from \<open>Exception\<close> is not a failure of a strategy but a
  request to stop (\<open>KeyboardInterrupt\<close>, \<open>SystemExit\<close>): \<open>except Exception\<close> lets it
  through, whichever strategy it comes from, and \<open>discover_endpoints\<close> raises.
\<close>

lemma discover_loop_stops:
  "m \<in> set ms \<Longrightarrow> m target = Inl e \<Longrightarrow> \<not> is_Exception e \<Longrightarrow>
   \<exists>e'. discover_loop ms target acc = Inl e' \<and> \<not> is_Exception e'"
proof (induction ms arbitrary: acc)
  case Nil
  then show ?case by simp
next
  case (Cons m' ms)
  show ?case
  proof (cases "m' target")
    case (Inl e')
    show ?thesis
    proof (cases "is_Exception e'")
      case True
      with Inl Cons.prems have "m \<in> set ms" by auto
      from Cons.IH [OF this Cons.prems(2,3)] Inl True show ?thesis by simp
    next
      case False
      with Inl show ?thesis by simp
    qed
  next
    case (Inr r)
    with Cons.prems have "m \<in> set ms" by auto
    from Cons.IH [OF this Cons.prems(2,3)] Inr show ?thesis
      by (cases r) simp_all
  qed
qed

lemma discover_endpoints_propagates:
  assumes "check_common_paths p target = Inl e \<or> check_js_files p target = Inl e
           \<or> check_swagger p target = Inl e \<or> check_graphql p target = Inl e"
    and "\<not> is_Exception e"
  shows "\<exists>e'. discover_endpoints p target = Inl e' \<and> \<not> is_Exception e'"
proof -
  from assms(1) obtain m where "m \<in> set (methods p)" "m target = Inl e"
    by (auto simp: methods_def)
  from discover_loop_stops [OF this assms(2)] show ?thesis
    by (simp add: discover_endpoints_def)
qed

lemma discover_endpoints_first_propagates:
  "check_common_paths p target = Inl e \<Longrightarrow> \<not> is_Exception e \<Longrightarrow>
   discover_endpoints p target = Inl e"
  by (simp add: discover_endpoints_def methods_def)

lemma discover_endpoints_interrupt_example:
  "discover_endpoints ctrl_c_probes ''http://t'' = Inl KeyboardInterrupt
   \<and> check_swagger ctrl_c_probes ''http://t'' = Inr (Some [''http://t/openapi.json''])"
  by (simp add: discover_endpoints_def methods_def ctrl_c_probes_def)

text \<open>
  Claim C3. A failure of a discovery strategy is an exception that derives from
  \<open>Exception\<close> (a network error, a parse error, a timeout). When whatever the four
  strategies \<open>check_common_paths\<close>, \<open>check_js_files\<close>, \<open>check_swagger\<close> and \<open>check_graphql\<close>
  raise for the target is such a failure, \<open>discover_endpoints\<close> returns and does not
  raise: a failing strategy is skipped and the others still run, the result is the union,
  without repetitions, of the lists the four strategies returned, and it is empty when
  every strategy failed or returned nothing.
\<close>

theorem discover_endpoints_isolation:
  assumes "\<forall>e. check_common_paths p target = Inl e \<longrightarrow> is_Exception e"
    and "\<forall>e. check_js_files p target = Inl e \<longrightarrow> is_Exception e"
    and "\<forall>e. check_swagger p target = Inl e \<longrightarrow> is_Exception e"
    and "\<forall>e. check_graphql p target = Inl e \<longrightarrow> is_Exception e"
  shows "\<exists>endpoints. discover_endpoints p target = Inr endpoints
     \<and> distinct endpoints
     \<and> set endpoints =
           (case check_common_paths p target of Inr (Some found) \<Rightarrow> set found | _ \<Rightarrow> {})
         \<union> (case check_js_files p target of Inr (Some found) \<Rightarrow> set found | _ \<Rightarrow> {})
         \<union> (case check_swagger p target of Inr (Some found) \<Rightarrow> set found | _ \<Rightarrow> {})
         \<union> (case check_graphql p target of Inr (Some found) \<Rightarrow> set found | _ \<Rightarrow> {})
     \<and> ((\<forall>found. check_common_paths p target = Inr (Some found) \<longrightarrow> found = [])
          \<and> (\<forall>found. check_js_files p target = Inr (Some found) \<longrightarrow> found = [])
          \<and> (\<forall>found. check_swagger p target = Inr (Some found) \<longrightarrow> found = [])
          \<and> (\<forall>found. check_graphql p target = Inr (Some found) \<longrightarrow> found = [])
          \<longrightarrow> endpoints = [])"
proof -
  have h: "\<forall>m \<in> set (methods p). \<forall>e. m target = Inl e \<longrightarrow> is_Exception e"
    using assms by (simp add: methods_def)
  from discover_loop_returns [OF h, of "[]"] obtain es
    where es: "discover_loop (methods p) target [] = Inr es" ..
  have d: "distinct es" using discover_loop_distinct [OF es] by simp
  have s: "set es =
           (case check_common_paths p target of Inr (Some found) \<Rightarrow> set found | _ \<Rightarrow> {})
         \<union> (case check_js_files p target of Inr (Some found) \<Rightarrow> set found | _ \<Rightarrow> {})
         \<union> (case check_swagger p target of Inr (Some found) \<Rightarrow> set found | _ \<Rightarrow> {})
         \<union> (case check_graphql p target of Inr (Some found) \<Rightarrow> set found | _ \<Rightarrow> {})"
    using discover_loop_set [OF es] by (simp add: methods_def Un_assoc)
  have "(\<forall>found. check_common_paths p target = Inr (Some found) \<longrightarrow> found = [])
          \<and> (\<forall>found. check_js_files p target = Inr (Some found) \<longrightarrow> found = [])
          \<and> (\<forall>found. check_swagger p target = Inr (Some found) \<longrightarrow> found = [])
          \<and> (\<forall>found. check_graphql p target = Inr (Some found) \<longrightarrow> found = [])
          \<longrightarrow> es = []"
  proof
    assume a: "(\<forall>found. check_common_paths p target = Inr (Some found) \<longrightarrow> found = [])
          \<and> (\<forall>found. check_js_files p target = Inr (Some found) \<longrightarrow> found = [])
          \<and> (\<forall>found. check_swagger p target = Inr (Some found) \<longrightarrow> found = [])
          \<and> (\<forall>found. check_graphql p target = Inr (Some found) \<longrightarrow> found = [])"
    have "set es = {}" unfolding s using a by (auto split: sum.splits option.splits)
    then show "es = []" by simp
  qed
  with es d s show ?thesis by (simp add: discover_endpoints_def)
qed

text \<open>
  Two instances. In the first, \<open>check_common_paths\<close> fails with a connection error, the
  next two return overlapping lists and the last an empty list. In the second,
  \<open>check_js_files\<close> times out between two strategies that both report.
\<close>

theorem discover_endpoints_isolation_witness:
  "(\<exists>endpoints. discover_endpoints flaky_probes ''http://t'' = Inr endpoints
      \<and> distinct endpoints
      \<and> set endpoints = {''http://t/api'', ''http://t/v1'', ''http://t/openapi.json''})
   \<and> (\<exists>endpoints. discover_endpoints reporting_probes ''http://t'' = Inr endpoints
      \<and> distinct endpoints
      \<and> set endpoints = {''http://t/api'', ''http://t/graphql''})"
proof -
  have f: "\<forall>e. check_common_paths flaky_probes ''http://t'' = Inl e \<longrightarrow> is_Exception e"
    "\<forall>e. check_js_files flaky_probes ''http://t'' = Inl e \<longrightarrow> is_Exception e"
    "\<forall>e. check_swagger flaky_probes ''http://t'' = Inl e \<longrightarrow> is_Exception e"
    "\<forall>e. check_graphql flaky_probes ''http://t'' = Inl e \<longrightarrow> is_Exception e"
    by (simp_all add: flaky_probes_def)
  have r: "\<forall>e. check_common_paths reporting_probes ''http://t'' = Inl e \<longrightarrow> is_Exception e"
    "\<forall>e. check_js_files reporting_probes ''http://t'' = Inl e \<longrightarrow> is_Exception e"
    "\<forall>e. check_swagger reporting_probes ''http://t'' = Inl e \<longrightarrow> is_Exception e"
    "\<forall>e. check_graphql reporting_probes ''http://t'' = Inl e \<longrightarrow> is_Exception e"
    by (simp_all add: reporting_probes_def)
  from discover_endpoints_isolation [OF f] obtain es1 where
    "discover_endpoints flaky_probes ''http://t'' = Inr es1" "distinct es1"
    "set es1 =
           (case check_common_paths flaky_probes ''http://t'' of Inr (Some found) \<Rightarrow> set found | _ \<Rightarrow> {})
         \<union> (case check_js_files flaky_probes ''http://t'' of Inr (Some found) \<Rightarrow> set found | _ \<Rightarrow> {})
         \<union> (case check_swagger flaky_probes ''http://t'' of Inr (Some found) \<Rightarrow> set found | _ \<Rightarrow> {})
         \<union> (case check_graphql flaky_probes ''http://t'' of Inr (Some found) \<Rightarrow> set found | _ \<Rightarrow> {})"
    by blast
  then have a: "\<exists>endpoints. discover_endpoints flaky_probes ''http://t'' = Inr endpoints
      \<and> distinct endpoints
      \<and> set endpoints = {''http://t/api'', ''http://t/v1'', ''http://t/openapi.json''}"
    by (auto simp: flaky_probes_def)
  from discover_endpoints_isolation [OF r] obtain es2 where
    "discover_endpoints reporting_probes ''http://t'' = Inr es2" "distinct es2"
    "set es2 =
           (case check_common_paths reporting_probes ''http://t'' of Inr (Some found) \<Rightarrow> set found | _ \<Rightarrow> {})
         \<union> (case check_js_files reporting_probes ''http://t'' of Inr (Some found) \<Rightarrow> set found | _ \<Rightarrow> {})
         \<union> (case check_swagger reporting_probes ''http://t'' of Inr (Some found) \<Rightarrow> set found | _ \<Rightarrow> {})
         \<union> (case check_graphql reporting_probes ''http://t'' of Inr (Some found) \<Rightarrow> set found | _ \<Rightarrow> {})"
    by blast
  then have b: "\<exists>endpoints. discover_endpoints reporting_probes ''http://t'' = Inr endpoints
      \<and> distinct endpoints
      \<and> set endpoints = {''http://t/api'', ''http://t/graphql''}"
    by (auto simp: reporting_probes_def)
  from a b show ?thesis by blast
qed

text \<open>
  Claim C6. The set returned by \<open>discover_endpoints\<close> holds every endpoint once, also
  when several strategies return it; running all strategies a second time into the same
  set, or merging the result with itself, changes nothing.
\<close>

theorem discover_endpoints_no_duplicates:
  assumes "discover_endpoints p target = Inr endpoints"
  shows "distinct endpoints
     \<and> discover_loop (methods p @ methods p) target [] = Inr endpoints
     \<and> set_update endpoints endpoints = endpoints"
proof -
  from assms have es: "discover_loop (methods p) target [] = Inr endpoints"
    by (simp add: discover_endpoints_def)
  have "distinct endpoints" using discover_loop_distinct [OF es] by simp
  moreover have "discover_loop (methods p @ methods p) target [] = Inr endpoints"
    using discover_loop_absorb [OF es, of endpoints] es by (simp add: discover_loop_append)
  moreover have "set_update endpoints endpoints = endpoints"
    by (rule set_update_absorb) simp
  ultimately show ?thesis by blast
qed

text \<open>An instance where two strategies both return \<open>http://t/v1\<close>.\<close>

theorem discover_endpoints_no_duplicates_witness:
  "discover_endpoints flaky_probes ''http://t'' =
     Inr [''http://t/api'', ''http://t/v1'', ''http://t/openapi.json'']
   \<and> distinct [''http://t/api'', ''http://t/v1'', ''http://t/openapi.json'']
   \<and> discover_loop (methods flaky_probes @ methods flaky_probes) ''http://t'' [] =
       Inr [''http://t/api'', ''http://t/v1'', ''http://t/openapi.json'']"
proof -
  have r: "discover_endpoints flaky_probes ''http://t'' =
     Inr [''http://t/api'', ''http://t/v1'', ''http://t/openapi.json'']"
    by (simp add: discover_endpoints_def methods_def flaky_probes_def set_add_def)
  from discover_endpoints_no_duplicates [OF r] r show ?thesis by blast
qed

subsection \<open>Vulnerability scan\<close>

lemma scan_loop_acc:
  "scan_loop ts endpoint acc =
     acc @ concat (map (\<lambda>(name, test_func).
                      case test_func endpoint of
                        Inl e \<Rightarrow> []
                      | Inr result \<Rightarrow> if truthy result then [(name, result)] else []) ts)"
  by (induction ts arbitrary: acc) (auto split: sum.splits)

lemma subseq_contributions:
  "subseq (map fst (concat (map (\<lambda>(name, test_func).
                      case test_func endpoint of
                        Inl e \<Rightarrow> []
                      | Inr result \<Rightarrow> if truthy result then [(name, result)] else []) ts)))
          (map fst ts)"
  by (induction ts) (auto split: sum.splits)

lemma member_contributions:
  "(name, result) \<in> set (concat (map (\<lambda>(name, test_func).
                      case test_func endpoint of
                        Inl e \<Rightarrow> []
                      | Inr result \<Rightarrow> if truthy result then [(name, result)] else []) ts))
   \<longleftrightarrow> (\<exists>test_func. (name, test_func) \<in> set ts
            \<and> test_func endpoint = Inr result \<and> truthy result)"
proof (induction ts)
  case Nil
  then show ?case by simp
next
  case (Cons t ts)
  obtain n f where t: "t = (n, f)" by (cases t)
  show ?case
    unfolding t using Cons.IH
    by (cases "f endpoint") (auto split: if_splits)
qed

text \<open>
  The names in the output follow the order of the registry, and a pair is in the output
  exactly when a registered test returned a truthy result.
\<close>

lemma scan_owasp_api_members:
  "map fst (tests p) = [''BOLA'', ''BFLA'', ''Mass Assignment'', ''SQLi'']
   \<and> subseq (map fst (scan_owasp_api p endpoint)) (map fst (tests p))
   \<and> (\<forall>name result.
        (name, result) \<in> set (scan_owasp_api p endpoint) \<longleftrightarrow>
        (\<exists>test_func. (name, test_func) \<in> set (tests p)
            \<and> test_func endpoint = Inr result \<and> truthy result))"
proof -
  have "map fst (tests p) = [''BOLA'', ''BFLA'', ''Mass Assignment'', ''SQLi'']"
    by (simp add: tests_def)
  moreover have "subseq (map fst (scan_owasp_api p endpoint)) (map fst (tests p))"
    by (simp add: scan_owasp_api_def scan_loop_acc subseq_contributions)
  moreover have "(name, result) \<in> set (scan_owasp_api p endpoint) \<longleftrightarrow>
        (\<exists>test_func. (name, test_func) \<in> set (tests p)
            \<and> test_func endpoint = Inr result \<and> truthy result)" for name result
    unfolding scan_owasp_api_def scan_loop_acc append_Nil
    by (rule member_contributions)
  ultimately show ?thesis by blast
qed

text \<open>
  Claim C5. The output of \<open>scan_owasp_api\<close> is what \<open>test_bola\<close>, \<open>test_bfla\<close>,
  \<open>test_mass_assignment\<close> and \<open>test_sqli\<close> contribute for the endpoint, in this order, under
  the names BOLA, BFLA, Mass Assignment and SQLi: a test that raises (anything: the
  \<open>except:\<close> is bare) or returns a falsy value contributes nothing and stops no other
  test, a test that returns a truthy result contributes the pair of its name and that
  result.
\<close>

theorem scan_owasp_api_registration_order:
  "scan_owasp_api p endpoint =
       (case test_bola p endpoint of
          Inl e \<Rightarrow> []
        | Inr result \<Rightarrow> if truthy result then [(''BOLA'', result)] else [])
     @ (case test_bfla p endpoint of
          Inl e \<Rightarrow> []
        | Inr result \<Rightarrow> if truthy result then [(''BFLA'', result)] else [])
     @ (case test_mass_assignment p endpoint of
          Inl e \<Rightarrow> []
        | Inr result \<Rightarrow> if truthy result then [(''Mass Assignment'', result)] else [])
     @ (case test_sqli p endpoint of
          Inl e \<Rightarrow> []
        | Inr result \<Rightarrow> if truthy result then [(''SQLi'', result)] else [])"
  by (simp add: scan_owasp_api_def tests_def scan_loop_acc)

text \<open>
  Two instances: BOLA times out, BFLA returns \<open>None\<close> and the other two report; BOLA and
  BFLA report, Mass Assignment fails and SQLi returns an empty list.
\<close>

theorem scan_owasp_api_registration_order_witness:
  "scan_owasp_api flaky_probes ''http://t/api'' =
     [(''Mass Assignment'', PStr ''role accepted''), (''SQLi'', PBool True)]
   \<and> scan_owasp_api reporting_probes ''http://t/api'' =
     [(''BOLA'', PStr ''object 7 readable''), (''BFLA'', PBool True)]"
proof -
  from scan_owasp_api_registration_order [of flaky_probes "''http://t/api''"]
  have a: "scan_owasp_api flaky_probes ''http://t/api'' =
     [(''Mass Assignment'', PStr ''role accepted''), (''SQLi'', PBool True)]"
    by (simp add: flaky_probes_def)
  from scan_owasp_api_registration_order [of reporting_probes "''http://t/api''"]
  have b: "scan_owasp_api reporting_probes ''http://t/api'' =
     [(''BOLA'', PStr ''object 7 readable''), (''BFLA'', PBool True)]"
    by (simp add: reporting_probes_def)
  from a b show ?thesis by blast
qed

subsection \<open>The run: what the loops keep\<close>

lemma frame_refl: "frame s s"
  by (simp add: frame_def)

lemma frame_trans: "frame s s' \<Longrightarrow> frame s' s'' \<Longrightarrow> frame s s''"
  by (simp add: frame_def)

lemma process_finding_keys:
  assumes "keys_ok s"
  shows "\<exists>s'. process_finding s endpoint vuln_name details = Inr s' \<and> keys_ok s' \<and> frame s s'"
proof -
  have step: "\<exists>s'. bucket_append key item s = Inr s' \<and> keys_ok s' \<and> frame s s'"
    if "key \<in> set bucket_keys" for key item
  proof -
    from keys_ok_lookup [OF assms that] obtain old
      where old: "map_of (findings s) key = Some old" ..
    let ?s' = "s\<lparr>findings := AList.update key (old @ [item]) (findings s)\<rparr>"
    have "bucket_append key item s = Inr ?s'" by (rule bucket_append_ok [OF old])
    moreover have "keys_ok ?s'"
      using assms by (simp add: keys_ok_def update_present_keys [OF old])
    moreover have "frame s ?s'" by (simp add: frame_def)
    ultimately show ?thesis by blast
  qed
  have "''critical'' \<in> set bucket_keys" "''high'' \<in> set bucket_keys"
    "''medium'' \<in> set bucket_keys"
    by (simp_all add: bucket_keys_def)
  then show ?thesis
    unfolding process_finding_def
    by (simp add: step)
qed

lemma results_loop_keys:
  "keys_ok s \<Longrightarrow> \<exists>s'. results_loop s endpoint rs = (None, s') \<and> keys_ok s' \<and> frame s s'"
proof (induction rs arbitrary: s)
  case Nil
  then show ?case by (simp add: frame_refl)
next
  case (Cons r rs)
  obtain vuln_name details where r: "r = (vuln_name, details)" by (cases r)
  from process_finding_keys [OF Cons.prems] obtain s1 where
    s1: "process_finding s endpoint vuln_name details = Inr s1" "keys_ok s1" "frame s s1"
    by blast
  from Cons.IH [OF s1(2)] obtain s2 where
    s2: "results_loop s1 endpoint rs = (None, s2)" "keys_ok s2" "frame s1 s2"
    by blast
  from s1 s2 show ?case
    unfolding r by (auto intro: frame_trans)
qed

lemma endpoints_loop_keys:
  "keys_ok s \<Longrightarrow> \<exists>s'. endpoints_loop p s es = (None, s') \<and> keys_ok s' \<and> frame s s'"
proof (induction es arbitrary: s)
  case Nil
  then show ?case by (simp add: frame_refl)
next
  case (Cons e es)
  from results_loop_keys [OF Cons.prems] obtain s1 where
    s1: "results_loop s e (scan_owasp_api p e) = (None, s1)" "keys_ok s1" "frame s s1"
    by blast
  from Cons.IH [OF s1(2)] obtain s2 where
    s2: "endpoints_loop p s1 es = (None, s2)" "keys_ok s2" "frame s1 s2"
    by blast
  from s1 s2 show ?case
    by (auto intro: frame_trans)
qed

lemma print_progress_ok:
  assumes "keys_ok s" and "total_tests s \<noteq> 0"
  shows "\<exists>crit high med. print_progress s =
     Inr (s\<lparr>stdout := stdout s @
            [Progress (real_of_int (completed_tests s) / real_of_int (total_tests s) * 100)
               crit high med]\<rparr>)"
proof -
  from keys_ok_lookup [OF assms(1), of "''critical''"] obtain c
    where c: "map_of (findings s) ''critical'' = Some c" by (auto simp: bucket_keys_def)
  from keys_ok_lookup [OF assms(1), of "''high''"] obtain h
    where h: "map_of (findings s) ''high'' = Some h" by (auto simp: bucket_keys_def)
  from keys_ok_lookup [OF assms(1), of "''medium''"] obtain m
    where m: "map_of (findings s) ''medium'' = Some m" by (auto simp: bucket_keys_def)
  from c h m assms(2) show ?thesis
    by (simp add: print_progress_def) blast
qed

lemma run_try_raise:
  "discover_endpoints p target = Inl e \<Longrightarrow> run_try p s target = (Some e, s)"
  by (simp add: run_try_def)

lemma run_try_ok:
  assumes "keys_ok s" and "total_tests s \<noteq> 0" and "discover_endpoints p target = Inr es"
  shows "\<exists>s' crit high med. run_try p s target = (None, s')
     \<and> keys_ok s'
     \<and> completed_tests s' = completed_tests s + 1
     \<and> total_tests s' = total_tests s
     \<and> stdout s' = stdout s @
          [Progress (real_of_int (completed_tests s + 1) / real_of_int (total_tests s) * 100)
             crit high med]
     \<and> report_file s' = report_file s \<and> threads s' = threads s \<and> targets s' = targets s"
proof -
  from endpoints_loop_keys [OF assms(1)] obtain s1 where
    s1: "endpoints_loop p s es = (None, s1)" "keys_ok s1" "frame s s1"
    by blast
  let ?s2 = "s1\<lparr>completed_tests := completed_tests s1 + 1\<rparr>"
  have k2: "keys_ok ?s2" using s1(2) by (simp add: keys_ok_def)
  have t2: "total_tests ?s2 \<noteq> 0" using s1(3) assms(2) by (simp add: frame_def)
  from print_progress_ok [OF k2 t2] obtain crit high med where
    pp: "print_progress ?s2 =
      Inr (?s2\<lparr>stdout := stdout ?s2 @
            [Progress (real_of_int (completed_tests ?s2) / real_of_int (total_tests ?s2) * 100)
               crit high med]\<rparr>)"
    by blast
  from assms(3) s1(1) pp have "run_try p s target =
      (None, ?s2\<lparr>stdout := stdout ?s2 @
            [Progress (real_of_int (completed_tests ?s2) / real_of_int (total_tests ?s2) * 100)
               crit high med]\<rparr>)"
    by (simp add: run_try_def)
  with s1(3) k2 show ?thesis
    by (simp add: frame_def keys_ok_def)
qed

lemma run_try_raise_only_discovery:
  assumes "keys_ok s" and "total_tests s \<noteq> 0" and "fst (run_try p s target) = Some e"
  shows "discover_endpoints p target = Inl e \<and> snd (run_try p s target) = s"
proof (cases "discover_endpoints p target")
  case (Inl e')
  with assms(3) show ?thesis by (simp add: run_try_def)
next
  case (Inr es)
  from run_try_ok [OF assms(1,2) Inr] assms(3) show ?thesis by auto
qed










subsection \<open>Progress accounting\<close>

lemma percents_append: "percents (evs @ evs') = percents evs @ percents evs'"
  by (induction evs rule: percents.induct) auto

lemma upt_shift: "[1..<Suc (Suc k)] = 1 # map Suc [1..<Suc k]"
  by (simp add: map_Suc_upt upt_conv_Cons del: upt_Suc)

lemma map_upt_shift: "map f [1..<Suc (Suc k)] = f 1 # map (\<lambda>c. f (Suc c)) [1..<Suc k]"
  unfolding upt_shift by (simp add: o_def del: upt_Suc)

lemma processed_Cons_raise:
  "discover_endpoints p target = Inl e \<Longrightarrow> processed p (target # rest) = processed p rest"
  by (simp add: processed_def)

lemma processed_Cons_ok:
  "discover_endpoints p target = Inr es \<Longrightarrow>
   processed p (target # rest) = target # processed p rest"
  by (simp add: processed_def)

lemma targets_loop_progress:
  assumes "keys_ok s" and "total_tests s \<noteq> 0"
  shows "keys_ok (targets_loop p s ts)
     \<and> total_tests (targets_loop p s ts) = total_tests s
     \<and> completed_tests (targets_loop p s ts) = completed_tests s + int (length (processed p ts))
     \<and> percents (stdout (targets_loop p s ts)) =
         percents (stdout s) @
         map (\<lambda>c. (real_of_int (completed_tests s) + real c) / real_of_int (total_tests s) * 100)
           [1..<Suc (length (processed p ts))]
     \<and> report_file (targets_loop p s ts) = report_file s
     \<and> threads (targets_loop p s ts) = threads s
     \<and> targets (targets_loop p s ts) = targets s"
  using assms
proof (induction ts arbitrary: s)
  case Nil
  then show ?case by (simp add: processed_def)
next
  case (Cons target rest)
  show ?case
  proof (cases "discover_endpoints p target")
    case (Inl e)
    from Cons.IH [OF Cons.prems] show ?thesis
      by (simp add: run_try_raise [OF Inl] processed_Cons_raise [OF Inl])
  next
    case (Inr es)
    from run_try_ok [OF Cons.prems Inr] obtain s1 crit high med where
      r: "run_try p s target = (None, s1)"
      and k: "keys_ok s1"
      and c: "completed_tests s1 = completed_tests s + 1"
      and t: "total_tests s1 = total_tests s"
      and o: "stdout s1 = stdout s @
          [Progress (real_of_int (completed_tests s + 1) / real_of_int (total_tests s) * 100)
             crit high med]"
      and f: "report_file s1 = report_file s" "threads s1 = threads s" "targets s1 = targets s"
      by blast
    from t Cons.prems(2) have t1: "total_tests s1 \<noteq> 0" by simp
    have loop: "targets_loop p s (target # rest) = targets_loop p s1 rest"
      by (simp add: r)
    let ?g = "\<lambda>c. (real_of_int (completed_tests s) + real c) / real_of_int (total_tests s) * 100"
    let ?k = "length (processed p rest)"
    have g1: "?g 1 = real_of_int (completed_tests s + 1) / real_of_int (total_tests s) * 100"
      by simp
    have gS: "(\<lambda>c. ?g (Suc c)) =
        (\<lambda>c. (real_of_int (completed_tests s1) + real c) / real_of_int (total_tests s1) * 100)"
      unfolding c t by (rule ext) (simp add: add.assoc add.commute)
    have shift: "map ?g [1..<Suc (Suc ?k)] =
        (real_of_int (completed_tests s + 1) / real_of_int (total_tests s) * 100) #
        map (\<lambda>c. (real_of_int (completed_tests s1) + real c) / real_of_int (total_tests s1) * 100)
           [1..<Suc ?k]"
      unfolding map_upt_shift [of ?g ?k] g1 gS ..
    from Cons.IH [OF k t1] have
      ih: "keys_ok (targets_loop p s1 rest)"
        "total_tests (targets_loop p s1 rest) = total_tests s1"
        "completed_tests (targets_loop p s1 rest) = completed_tests s1 + int ?k"
        "percents (stdout (targets_loop p s1 rest)) =
           percents (stdout s1) @
           map (\<lambda>c. (real_of_int (completed_tests s1) + real c) / real_of_int (total_tests s1) * 100)
             [1..<Suc ?k]"
        "report_file (targets_loop p s1 rest) = report_file s1"
        "threads (targets_loop p s1 rest) = threads s1"
        "targets (targets_loop p s1 rest) = targets s1"
      by blast+
    have out: "percents (stdout (targets_loop p s1 rest)) =
         percents (stdout s) @ map ?g [1..<Suc (Suc ?k)]"
      unfolding ih(4) shift o by (simp add: percents_append)
    have len: "length (processed p (target # rest)) = Suc ?k"
      by (simp add: processed_Cons_ok [OF Inr])
    show ?thesis
      unfolding loop len
      using ih(1,2,3,5,6,7) out by (simp add: c t f)
  qed
qed

text \<open>
  The loop over a list passes through the state reached after each of its prefixes, so
  the states at the loop boundaries of a run over \<open>ts\<close> are those after \<open>take k ts\<close>.
\<close>

lemma targets_loop_take:
  "targets_loop p s (ts @ ts') = targets_loop p (targets_loop p s ts) ts'"
  by (induction ts arbitrary: s) auto

lemma processed_length: "length (processed p ts) \<le> length ts"
  by (simp add: processed_def)

lemma processed_all:
  "\<forall>target \<in> set ts. \<not> isl (discover_endpoints p target) \<Longrightarrow> processed p ts = ts"
  by (simp add: processed_def)

text \<open>
  Claim C10. For a run over \<open>n \<ge> 1\<close> targets from a fresh scanner: the total is set to
  \<open>5 n\<close>; at every loop boundary the completed counter equals the number of targets
  processed without a raise so far and does not exceed the total; when the executor can be
  created, the percentages printed are \<open>c / (5 n) * 100\<close> for \<open>c\<close> from 1 up to
  that number; and when every target is processed the counter ends at \<open>n\<close> and the last
  percentage printed is 20.
\<close>

theorem run_progress_accounting:
  assumes "ts \<noteq> []"
  shows "total_tests (snd (run p (init ts out th))) = 5 * int (length ts)
     \<and> completed_tests (snd (run p (init ts out th))) \<le> total_tests (snd (run p (init ts out th)))
     \<and> (\<forall>k \<le> length ts.
          completed_tests (targets_loop p ((init ts out th)\<lparr>total_tests := int (length ts) * 5\<rparr>) (take k ts))
            = int (length (processed p (take k ts)))
        \<and> completed_tests (targets_loop p ((init ts out th)\<lparr>total_tests := int (length ts) * 5\<rparr>) (take k ts))
            \<le> total_tests (targets_loop p ((init ts out th)\<lparr>total_tests := int (length ts) * 5\<rparr>) (take k ts)))
     \<and> (0 < th \<longrightarrow>
          completed_tests (snd (run p (init ts out th))) = int (length (processed p ts))
        \<and> percents (stdout (snd (run p (init ts out th)))) =
            map (\<lambda>c. real c / (5 * real (length ts)) * 100) [1..<Suc (length (processed p ts))])
     \<and> (0 < th \<and> (\<forall>target \<in> set ts. \<not> isl (discover_endpoints p target)) \<longrightarrow>
          completed_tests (snd (run p (init ts out th))) = int (length ts)
        \<and> last (percents (stdout (snd (run p (init ts out th))))) = 20)"
proof -
  let ?s0 = "init ts out th"
  let ?s1 = "?s0\<lparr>total_tests := int (length ts) * 5\<rparr>"
  have s0: "targets ?s0 = ts" "threads ?s0 = th" by (simp_all add: init_def)
  have k1: "keys_ok ?s1" by (simp add: keys_ok_def init_def bucket_keys_def)
  have t1: "total_tests ?s1 \<noteq> 0" using assms by simp
  have c1: "completed_tests ?s1 = 0" "percents (stdout ?s1) = []"
    "total_tests ?s1 = 5 * int (length ts)"
    by (simp_all add: init_def)
  have loop: "total_tests (targets_loop p ?s1 us) = 5 * int (length ts)
      \<and> completed_tests (targets_loop p ?s1 us) = int (length (processed p us))
      \<and> percents (stdout (targets_loop p ?s1 us)) =
           map (\<lambda>c. real c / (5 * real (length ts)) * 100) [1..<Suc (length (processed p us))]"
    for us
    using targets_loop_progress [OF k1 t1, of p us] unfolding c1 by simp
  have run_pos: "run p ?s0 = (None, generate_report (targets_loop p ?s1 ts))"
    if "0 < th"
    using that by (simp add: run_def Let_def s0)
  have run_neg: "run p ?s0 = (Some ValueError, ?s1)" if "\<not> 0 < th"
    using that by (simp add: run_def Let_def s0)
  have total: "total_tests (snd (run p ?s0)) = 5 * int (length ts)"
  proof (cases "0 < th")
    case True
    with loop [of ts] show ?thesis by (simp add: run_pos generate_report_def)
  next
    case False
    with c1(3) show ?thesis by (simp add: run_neg)
  qed
  have completed: "completed_tests (snd (run p ?s0)) = int (length (processed p ts))"
    if "0 < th"
    using loop [of ts] by (simp add: run_pos [OF that] generate_report_def)
  have bound: "completed_tests (snd (run p ?s0)) \<le> total_tests (snd (run p ?s0))"
  proof (cases "0 < th")
    case True
    from processed_length [of p ts] show ?thesis
      unfolding total completed [OF True] by simp
  next
    case False
    with c1(1) show ?thesis unfolding total by (simp add: run_neg)
  qed
  have steps: "completed_tests (targets_loop p ?s1 (take k ts)) = int (length (processed p (take k ts)))
        \<and> completed_tests (targets_loop p ?s1 (take k ts)) \<le> total_tests (targets_loop p ?s1 (take k ts))"
    if "k \<le> length ts" for k
  proof -
    have "length (processed p (take k ts)) \<le> length ts"
      using processed_length [of p "take k ts"] by simp
    with loop [of "take k ts"] show ?thesis by simp
  qed
  have shown: "percents (stdout (snd (run p (init ts out th)))) =
            map (\<lambda>c. real c / (5 * real (length ts)) * 100) [1..<Suc (length (processed p ts))]"
    if "0 < th"
    using loop [of ts]
    by (simp add: run_pos [OF that] generate_report_def percents_append del: upt_Suc)
  have all: "completed_tests (snd (run p (init ts out th))) = int (length ts)
        \<and> last (percents (stdout (snd (run p (init ts out th))))) = 20"
    if th: "0 < th" and ok: "\<forall>target \<in> set ts. \<not> isl (discover_endpoints p target)"
  proof -
    from assms obtain n where n: "length ts = Suc n" by (cases ts) auto
    have pos: "5 + 5 * real n \<noteq> 0"
      using of_nat_0_le_iff [of n, where ?'a = real] by linarith
    have "real (Suc n) / (5 * real (Suc n)) * 100 = 20"
      using pos by (simp add: field_simps)
    then have "last (map (\<lambda>c. real c / (5 * real (length ts)) * 100) [1..<Suc (length ts)]) = 20"
      unfolding n by (simp del: of_nat_Suc)
    with completed [OF th] shown [OF th] show ?thesis
      by (simp add: processed_all [OF ok] del: upt_Suc)
  qed
  from total bound steps completed shown all show ?thesis by blast
qed

text \<open>An instance with two targets, both processed.\<close>

theorem run_progress_accounting_witness:
  "total_tests (snd (run flaky_probes (init [''http://t'', ''http://u''] ''out'' 5))) = 10
   \<and> completed_tests (snd (run flaky_probes (init [''http://t'', ''http://u''] ''out'' 5))) = 2
   \<and> last (percents (stdout (snd (run flaky_probes (init [''http://t'', ''http://u''] ''out'' 5))))) = 20"
proof -
  let ?ts = "[''http://t'', ''http://u'']"
  have h: "?ts \<noteq> []" by simp
  have th: "(0::int) < 5" by simp
  have ok: "\<forall>target \<in> set ?ts. \<not> isl (discover_endpoints flaky_probes target)"
    by (simp add: discover_endpoints_def methods_def flaky_probes_def set_add_def)
  from run_progress_accounting [OF h, of flaky_probes "''out''" 5] th ok
  show ?thesis by simp
qed

subsection \<open>Division in the progress line\<close>

text \<open>
  Claim C7, as the code has it. \<open>print_progress\<close> has no guard: with \<open>total_tests = 0\<close> it
  raises \<open>ZeroDivisionError\<close>. A run never meets that case, since the progress line is
  computed only after a target was processed, when the total is \<open>5 n \<ge> 5\<close>: every target
  that is processed gets its progress line, and a run over no target prints none.
\<close>

theorem print_progress_division:
  "(total_tests s = 0 \<longrightarrow> print_progress s = Inl ZeroDivisionError)
   \<and> (0 < th \<longrightarrow>
        length (percents (stdout (snd (run p (init ts out th))))) = length (processed p ts))"
proof -
  have zero: "print_progress s = Inl ZeroDivisionError" if "total_tests s = 0"
    using that by (simp add: print_progress_def)
  have lines: "length (percents (stdout (snd (run p (init ts out th))))) = length (processed p ts)"
    if th: "0 < th"
  proof (cases ts)
    case Nil
    with th show ?thesis
      by (simp add: run_def Let_def init_def generate_report_def processed_def)
  next
    case (Cons t ts')
    let ?s1 = "(init ts out th)\<lparr>total_tests := int (length ts) * 5\<rparr>"
    have k1: "keys_ok ?s1" by (simp add: keys_ok_def init_def bucket_keys_def)
    have t1: "total_tests ?s1 \<noteq> 0" using Cons by simp
    have s0: "targets (init ts out th) = ts" "threads (init ts out th) = th"
      "percents (stdout (init ts out th)) = []"
      by (simp_all add: init_def)
    have "run p (init ts out th) = (None, generate_report (targets_loop p ?s1 ts))"
      using th by (simp add: run_def Let_def s0)
    with targets_loop_progress [OF k1 t1, of p ts] show ?thesis
      by (simp add: generate_report_def percents_append s0 del: upt_Suc)
  qed
  from zero lines show ?thesis by blast
qed

text \<open>
  An instance: on the scanner as \<open>__init__\<close> leaves it the progress line fails, and a run
  over one target prints one line.
\<close>

theorem print_progress_division_witness:
  "print_progress (init [''http://t''] ''out'' 5) = Inl ZeroDivisionError
   \<and> length (percents (stdout (snd (run flaky_probes (init [''http://t''] ''out'' 5))))) = 1"
proof -
  have z: "total_tests (init [''http://t''] ''out'' 5) = 0" by (simp add: init_def)
  have th: "(0::int) < 5" by simp
  have p: "processed flaky_probes [''http://t''] = [''http://t'']"
    by (simp add: processed_def discover_endpoints_def methods_def flaky_probes_def set_add_def)
  from print_progress_division
    [of "init [''http://t''] ''out'' 5" 5 flaky_probes "[''http://t'']" "''out''"] z th p
  show ?thesis by simp
qed

text \<open>With a total of zero the progress line is a division error, not a percentage.\<close>

theorem print_progress_zero_total_counterexample:
  "total_tests (init [] ''out'' 5) = 0
   \<and> print_progress (init [] ''out'' 5) = Inl ZeroDivisionError"
  by (simp add: print_progress_def init_def)

subsection \<open>The report\<close>

lemma shape_ok_update:
  "shape_ok fs \<Longrightarrow> list_all (\<lambda>item. record_keys item = finding_keys) b \<Longrightarrow>
   shape_ok (AList.update k b fs)"
  unfolding shape_ok_def by (induction fs) auto

lemma shape_ok_lookup:
  "shape_ok fs \<Longrightarrow> map_of fs k = Some b \<Longrightarrow>
   list_all (\<lambda>item. record_keys item = finding_keys) b"
  unfolding shape_ok_def by (induction fs) (auto split: if_splits)

lemma bucket_append_report_inv:
  assumes "bucket_append key item s = Inr s'"
    and "key \<noteq> ''low''" and "key \<noteq> ''info''"
    and "record_keys item = finding_keys"
    and "report_inv (findings s)"
  shows "report_inv (findings s')"
proof -
  from assms(1) obtain old where old: "map_of (findings s) key = Some old"
    and s': "s' = s\<lparr>findings := AList.update key (old @ [item]) (findings s)\<rparr>"
    by (auto simp: bucket_append_def split: option.splits)
  from assms(5) have inv: "map fst (findings s) = bucket_keys"
    "map_of (findings s) ''low'' = Some []" "map_of (findings s) ''info'' = Some []"
    "shape_ok (findings s)"
    by (simp_all add: report_inv_def)
  have "list_all (\<lambda>item. record_keys item = finding_keys) (old @ [item])"
    using shape_ok_lookup [OF inv(4) old] assms(4) by simp
  from shape_ok_update [OF inv(4) this] inv(1,2,3) assms(2,3) show ?thesis
    unfolding s' report_inv_def
    by (simp add: update_present_keys [OF old] update_conv')
qed

lemma process_finding_report_inv:
  assumes "process_finding s endpoint vuln_name details = Inr s'"
    and "report_inv (findings s)"
  shows "report_inv (findings s')"
proof -
  have keys: "record_keys (PDict [(''endpoint'', a), (''vulnerability'', b),
                  (''details'', c), (''color'', d)]) = finding_keys" for a b c d
    by (simp add: record_keys_def finding_keys_def)
  from assms show ?thesis
    unfolding process_finding_def
    by (auto split: if_splits intro: bucket_append_report_inv [OF _ _ _ keys])
qed

lemma results_loop_report_inv:
  "report_inv (findings s) \<Longrightarrow> report_inv (findings (snd (results_loop s endpoint rs)))"
proof (induction rs arbitrary: s)
  case Nil
  then show ?case by simp
next
  case (Cons r rs)
  obtain vuln_name details where r: "r = (vuln_name, details)" by (cases r)
  show ?case
  proof (cases "process_finding s endpoint vuln_name details")
    case (Inl e)
    with Cons.prems show ?thesis by (simp add: r)
  next
    case (Inr s1)
    from Cons.IH [OF process_finding_report_inv [OF Inr Cons.prems]] Inr
    show ?thesis by (simp add: r)
  qed
qed

lemma endpoints_loop_report_inv:
  "report_inv (findings s) \<Longrightarrow> report_inv (findings (snd (endpoints_loop p s es)))"
proof (induction es arbitrary: s)
  case Nil
  then show ?case by simp
next
  case (Cons e es)
  obtain x s1 where r: "results_loop s e (scan_owasp_api p e) = (x, s1)"
    by (cases "results_loop s e (scan_owasp_api p e)")
  from results_loop_report_inv [OF Cons.prems, of e "scan_owasp_api p e"] r
  have inv1: "report_inv (findings s1)" by simp
  show ?case
  proof (cases x)
    case None
    with Cons.IH [OF inv1] r show ?thesis by simp
  next
    case (Some ex)
    with inv1 r show ?thesis by simp
  qed
qed

lemma print_progress_findings:
  "print_progress s = Inr s' \<Longrightarrow> findings s' = findings s"
  by (auto simp: print_progress_def split: if_splits option.splits)

lemma run_try_report_inv:
  assumes "report_inv (findings s)"
  shows "report_inv (findings (snd (run_try p s target)))"
proof (cases "discover_endpoints p target")
  case (Inl e)
  with assms show ?thesis by (simp add: run_try_def)
next
  case (Inr es)
  obtain x s1 where r: "endpoints_loop p s es = (x, s1)"
    by (cases "endpoints_loop p s es")
  from endpoints_loop_report_inv [OF assms, of p es] r
  have inv1: "report_inv (findings s1)" by simp
  show ?thesis
  proof (cases x)
    case (Some ex)
    with inv1 r Inr show ?thesis by (simp add: run_try_def)
  next
    case None
    show ?thesis
    proof (cases "print_progress (s1\<lparr>completed_tests := completed_tests s1 + 1\<rparr>)")
      case (Inl e)
      with inv1 r Inr None show ?thesis by (simp add: run_try_def)
    next
      case (Inr s2)
      from print_progress_findings [OF Inr] inv1 have "report_inv (findings s2)" by simp
      with r \<open>discover_endpoints p target = Inr es\<close> None Inr show ?thesis
        by (simp add: run_try_def)
    qed
  qed
qed

lemma targets_loop_report_inv:
  "report_inv (findings s) \<Longrightarrow> report_inv (findings (targets_loop p s ts))"
  by (induction ts arbitrary: s) (auto intro: run_try_report_inv)

lemma main_report:
  "report_file (snd (main p ts out th)) =
     (if th \<le> 0 then None
      else Some (findings (targets_loop p ((init ts out th)\<lparr>total_tests := int (length ts) * 5\<rparr>) ts)))"
  by (simp add: main_def run_def Let_def generate_report_def init_def)

text \<open>
  Claim C8, as the code has it. Every report the program writes has exactly the keys
  \<open>critical\<close>, \<open>high\<close>, \<open>medium\<close>, \<open>low\<close>, \<open>info\<close>, in this order; \<open>low\<close> and \<open>info\<close> are
  empty; and every record in a bucket has the four keys \<open>endpoint\<close>, \<open>vulnerability\<close>,
  \<open>details\<close> and \<open>color\<close>.
\<close>

theorem report_schema:
  assumes "report_file (snd (main p ts out th)) = Some report"
  shows "map fst report = [''critical'', ''high'', ''medium'', ''low'', ''info'']
     \<and> map_of report ''low'' = Some []
     \<and> map_of report ''info'' = Some []
     \<and> (\<forall>key bucket item. map_of report key = Some bucket \<and> item \<in> set bucket \<longrightarrow>
           record_keys item = [''endpoint'', ''vulnerability'', ''details'', ''color''])"
proof -
  let ?s1 = "(init ts out th)\<lparr>total_tests := int (length ts) * 5\<rparr>"
  have "report_inv (findings ?s1)"
    by (simp add: report_inv_def init_def bucket_keys_def shape_ok_def)
  from targets_loop_report_inv [OF this, of p ts] assms
  have inv: "report_inv report"
    by (simp add: main_report split: if_splits)
  then have sh: "shape_ok report" by (simp add: report_inv_def)
  have "record_keys item = [''endpoint'', ''vulnerability'', ''details'', ''color'']"
    if "map_of report key = Some bucket" and "item \<in> set bucket" for key bucket item
    using shape_ok_lookup [OF sh that(1)] that(2)
    by (simp add: list_all_iff finding_keys_def)
  with inv show ?thesis
    unfolding report_inv_def bucket_keys_def by blast
qed

text \<open>An instance: one target, one endpoint, one finding of the SQLi test.\<close>

theorem report_schema_witness:
  "report_file (snd (main ctrl_c_at_a_probes [''http://b''] ''out'' 5)) =
     Some [(''critical'',
            [PDict [(''endpoint'', PStr ''http://b/api''), (''vulnerability'', PStr ''SQLi''),
                    (''details'', PBool True), (''color'', PStr Fore_RED)]]),
           (''high'', []), (''medium'', []), (''low'', []), (''info'', [])]
   \<and> record_keys
        (PDict [(''endpoint'', PStr ''http://b/api''), (''vulnerability'', PStr ''SQLi''),
                (''details'', PBool True), (''color'', PStr Fore_RED)])
       = [''endpoint'', ''vulnerability'', ''details'', ''color'']"
proof -
  let ?item = "PDict [(''endpoint'', PStr ''http://b/api''), (''vulnerability'', PStr ''SQLi''),
                    (''details'', PBool True), (''color'', PStr Fore_RED)]"
  let ?report = "[(''critical'', [?item]),
           (''high'', []), (''medium'', []), (''low'', []), (''info'', [])]"
  have r: "report_file (snd (main ctrl_c_at_a_probes [''http://b''] ''out'' 5)) = Some ?report"
    by (simp add: main_def run_def Let_def run_try_def discover_endpoints_def methods_def
      ctrl_c_at_a_probes_def init_def scan_owasp_api_def tests_def process_finding_def
      bucket_append_def print_progress_def generate_report_def set_add_def)
  from report_schema [OF r] have
    "\<forall>key bucket item. map_of ?report key = Some bucket \<and> item \<in> set bucket \<longrightarrow>
           record_keys item = [''endpoint'', ''vulnerability'', ''details'', ''color'']"
    by blast
  then have "map_of ?report ''critical'' = Some [?item] \<and> ?item \<in> set [?item] \<longrightarrow>
           record_keys ?item = [''endpoint'', ''vulnerability'', ''details'', ''color'']"
    by blast
  then have "record_keys ?item = [''endpoint'', ''vulnerability'', ''details'', ''color'']"
    by simp
  with r show ?thesis by blast
qed

text \<open>
  The record written for a finding does not have the shape
  \<open>{endpoint, vulnerability, details}\<close>: it carries a fourth key, \<open>color\<close>.
\<close>

theorem report_record_shape_counterexample:
  "report_file (snd (main ctrl_c_at_a_probes [''http://b''] ''out'' 5)) =
     Some [(''critical'',
            [PDict [(''endpoint'', PStr ''http://b/api''), (''vulnerability'', PStr ''SQLi''),
                    (''details'', PBool True), (''color'', PStr Fore_RED)]]),
           (''high'', []), (''medium'', []), (''low'', []), (''info'', [])]
   \<and> record_keys
        (PDict [(''endpoint'', PStr ''http://b/api''), (''vulnerability'', PStr ''SQLi''),
                (''details'', PBool True), (''color'', PStr Fore_RED)])
       \<noteq> [''endpoint'', ''vulnerability'', ''details'']"
  by (simp add: main_def run_def Let_def run_try_def discover_endpoints_def methods_def
      ctrl_c_at_a_probes_def init_def scan_owasp_api_def tests_def process_finding_def
      bucket_append_def print_progress_def generate_report_def set_add_def record_keys_def)

subsection \<open>The worker pool\<close>

lemma bucket_append_threads:
  "bucket_append key item (s\<lparr>threads := k\<rparr>) =
     map_sum id (\<lambda>s'. s'\<lparr>threads := k\<rparr>) (bucket_append key item s)"
  by (simp add: bucket_append_def split: option.splits)

lemma process_finding_threads:
  "process_finding (s\<lparr>threads := k\<rparr>) endpoint vuln_name details =
     map_sum id (\<lambda>s'. s'\<lparr>threads := k\<rparr>) (process_finding s endpoint vuln_name details)"
  by (simp add: process_finding_def bucket_append_threads)

lemma results_loop_threads:
  "results_loop (s\<lparr>threads := k\<rparr>) endpoint rs =
     apsnd (\<lambda>s'. s'\<lparr>threads := k\<rparr>) (results_loop s endpoint rs)"
proof (induction rs arbitrary: s)
  case Nil
  then show ?case by simp
next
  case (Cons r rs)
  obtain vuln_name details where r: "r = (vuln_name, details)" by (cases r)
  show ?case
    unfolding r
    by (cases "process_finding s endpoint vuln_name details")
       (simp_all add: process_finding_threads Cons.IH)
qed

lemma endpoints_loop_threads:
  "endpoints_loop p (s\<lparr>threads := k\<rparr>) es =
     apsnd (\<lambda>s'. s'\<lparr>threads := k\<rparr>) (endpoints_loop p s es)"
proof (induction es arbitrary: s)
  case Nil
  then show ?case by simp
next
  case (Cons e es)
  obtain x s1 where r: "results_loop s e (scan_owasp_api p e) = (x, s1)"
    by (cases "results_loop s e (scan_owasp_api p e)")
  show ?case
    by (cases x) (simp_all add: results_loop_threads r Cons.IH)
qed

lemma print_progress_threads:
  "print_progress (s\<lparr>threads := k\<rparr>) =
     map_sum id (\<lambda>s'. s'\<lparr>threads := k\<rparr>) (print_progress s)"
  by (simp add: print_progress_def split: option.splits)

lemma run_try_threads:
  "run_try p (s\<lparr>threads := k\<rparr>) target =
     apsnd (\<lambda>s'. s'\<lparr>threads := k\<rparr>) (run_try p s target)"
proof (cases "discover_endpoints p target")
  case (Inl e)
  then show ?thesis by (simp add: run_try_def)
next
  case (Inr es)
  obtain x s1 where r: "endpoints_loop p s es = (x, s1)"
    by (cases "endpoints_loop p s es")
  have c: "s1\<lparr>threads := k, completed_tests := completed_tests s1 + 1\<rparr> =
        s1\<lparr>completed_tests := completed_tests s1 + 1, threads := k\<rparr>"
    by simp
  show ?thesis
  proof (cases x)
    case (Some ex)
    with Inr r show ?thesis by (simp add: run_try_def endpoints_loop_threads)
  next
    case None
    with Inr r show ?thesis
      by (cases "print_progress (s1\<lparr>completed_tests := completed_tests s1 + 1\<rparr>)")
         (simp_all add: run_try_def endpoints_loop_threads c print_progress_threads)
  qed
qed

text \<open>
  Claim C9 (the code does not do what the claim says). The executor created in \<open>run\<close> is
  never given a task: the targets are walked one after the other by the calling thread,
  and the configured width has no effect on the loop. Whatever \<open>threads\<close> is, the loop
  computes the same state.
\<close>

theorem targets_loop_ignores_threads:
  "targets_loop p (s\<lparr>threads := k\<rparr>) ts = (targets_loop p s ts)\<lparr>threads := k\<rparr>"
proof (induction ts arbitrary: s)
  case Nil
  then show ?case by simp
next
  case (Cons target rest)
  show ?case by (simp add: run_try_threads Cons.IH)
qed

subsection \<open>Interrupts\<close>

text \<open>
  Claim C2 (the code does not do what the claim says). An interrupt that arrives while a
  target is processed is caught by a bare \<open>except:\<close> and the run goes on. With two targets
  and \<open>KeyboardInterrupt\<close> raised in the discovery of the first, when no finding is held:
  the second target is still scanned, the handler of the entry point never runs (its line
  is not printed), and the report written at the end holds a finding recorded after the
  interrupt. With the bodies of the file itself and the interrupt arriving in the requests
  for the first target, both targets are processed to the end.
\<close>

theorem interrupt_during_scan_is_swallowed:
  "fst (run_try ctrl_c_at_a_probes
          ((init [''http://a'', ''http://b''] ''out'' 5)\<lparr>total_tests := 10\<rparr>) ''http://a'')
     = Some KeyboardInterrupt
   \<and> fst (main ctrl_c_at_a_probes [''http://a'', ''http://b''] ''out'' 5) = 0
   \<and> stdout (snd (main ctrl_c_at_a_probes [''http://a'', ''http://b''] ''out'' 5))
       = [Progress 10 1 0 0, ReportGenerated]
   \<and> report_file (snd (main ctrl_c_at_a_probes [''http://a'', ''http://b''] ''out'' 5))
       = Some [(''critical'',
                [PDict [(''endpoint'', PStr ''http://b/api''), (''vulnerability'', PStr ''SQLi''),
                        (''details'', PBool True), (''color'', PStr Fore_RED)]]),
               (''high'', []), (''medium'', []), (''low'', []), (''info'', [])]
   \<and> stdout (snd (main (source_probes ctrl_c_net) [''http://a'', ''http://b''] ''out'' 5))
       = [Progress 10 0 0 0, Progress 20 0 0 0, ReportGenerated]"
  by (simp add: main_def run_def Let_def run_try_def discover_endpoints_def methods_def
      ctrl_c_at_a_probes_def init_def scan_owasp_api_def tests_def process_finding_def
      bucket_append_def print_progress_def generate_report_def set_add_def
      source_probes_def check_common_paths_body_def ctrl_c_net_def)

end
